theory Spec2Isabelle
  imports Main
begin

section \<open>Values, configs and the request key\<close>

text \<open>
  JavaScript values as far as the program looks at them: plain data. A string is a
  sequence of code units below 0x100; a number is an integer of magnitude below \<open>2^53\<close>, which
  JavaScript holds exactly and prints in plain decimal. An object is the list of its own properties in the order in which
  JavaScript enumerates them (for keys that are not array indices: insertion order),
  which is the order \<open>JSON.stringify\<close> walks.
\<close>

datatype json = JUndefined | JNull | JBool bool | JNum int | JStr string
  | JArr "json list" | JObj "(string \<times> json) list"

type_synonym config = "(string \<times> json) list"

text \<open>\<open>config[k]\<close>: the value of a property, \<open>undefined\<close> when it is absent.\<close>

definition get_prop :: "config \<Rightarrow> string \<Rightarrow> json" where
  "get_prop config k = (case map_of config k of None \<Rightarrow> JUndefined | Some v \<Rightarrow> v)"

text \<open>\<open>k in config\<close>.\<close>

definition has_prop :: "config \<Rightarrow> string \<Rightarrow> bool" where
  "has_prop config k = (map_of config k \<noteq> None)"

text \<open>\<open>String.prototype.trim\<close>: the white space and line terminators below 0x100.\<close>

definition is_ws :: "char \<Rightarrow> bool" where
  "is_ws c = (c \<in> set [CHR 0x09, CHR 0x0A, CHR 0x0B, CHR 0x0C, CHR 0x0D, CHR 0x20, CHR 0xA0])"

definition trim :: "string \<Rightarrow> string" where
  "trim s = rev (dropWhile is_ws (rev (dropWhile is_ws s)))"

text \<open>
  \<^verbatim>\<open>
  function hasUrl(config) {
      return 'url' in config && typeof config.url === 'string'
          && config.url.trim().length > 0;
  }\<close>
\<close>

definition hasUrl :: "config \<Rightarrow> bool" where
  "hasUrl config =
     (has_prop config ''url'' \<and>
      (case get_prop config ''url'' of JStr s \<Rightarrow> 0 < length (trim s) | _ \<Rightarrow> False))"

subsection \<open>\<open>JSON.stringify\<close> on plain data\<close>

fun digits :: "nat \<Rightarrow> string" where
  "digits n =
     (if n < 10 then [''0123456789'' ! n]
      else digits (n div 10) @ [''0123456789'' ! (n mod 10)])"

definition hex2 :: "nat \<Rightarrow> string" where
  "hex2 n = [''0123456789abcdef'' ! (n div 16), ''0123456789abcdef'' ! (n mod 16)]"

definition escape_char :: "char \<Rightarrow> string" where
  "escape_char c =
    (if c = CHR 0x22 then [CHR 0x5C, CHR 0x22]
     else if c = CHR 0x5C then [CHR 0x5C, CHR 0x5C]
     else if c = CHR 0x08 then [CHR 0x5C, CHR ''b'']
     else if c = CHR 0x09 then [CHR 0x5C, CHR ''t'']
     else if c = CHR 0x0A then [CHR 0x5C, CHR ''n'']
     else if c = CHR 0x0C then [CHR 0x5C, CHR ''f'']
     else if c = CHR 0x0D then [CHR 0x5C, CHR ''r'']
     else if (of_char c :: nat) < 32
       then [CHR 0x5C, CHR ''u'', CHR ''0'', CHR ''0''] @ hex2 (of_char c)
     else [c])"

definition quote :: "string \<Rightarrow> string" where
  "quote s = [CHR 0x22] @ concat (map escape_char s) @ [CHR 0x22]"

fun join :: "string list \<Rightarrow> string" where
  "join [] = []"
| "join [x] = x"
| "join (x # y # ys) = x @ '','' @ join (y # ys)"

text \<open>
  The serialisation of a value in a position that always prints: \<open>undefined\<close> prints as
  \<open>null\<close> inside an array, and a property whose value is \<open>undefined\<close> is left out of its
  object.
\<close>

fun serialize :: "json \<Rightarrow> string" where
  "serialize JUndefined = ''null''"
| "serialize JNull = ''null''"
| "serialize (JBool b) = (if b then ''true'' else ''false'')"
| "serialize (JNum n) = (if n < 0 then ''-'' @ digits (nat (- n)) else digits (nat n))"
| "serialize (JStr s) = quote s"
| "serialize (JArr xs) = ''['' @ join (map serialize xs) @ '']''"
| "serialize (JObj kvs) =
     ''{'' @ join (map (\<lambda>(k, v). quote k @ '':'' @ serialize v)
                    (filter (\<lambda>(k, v). v \<noteq> JUndefined) kvs)) @ ''}''"

text \<open>\<open>JSON.stringify(v)\<close> is \<open>undefined\<close> (here \<open>None\<close>) for \<open>undefined\<close> itself.\<close>

definition JSON_stringify :: "json \<Rightarrow> string option" where
  "JSON_stringify v = (if v = JUndefined then None else Some (serialize v))"

text \<open>
  \<^verbatim>\<open>
  function getRequestKey(config) {
      const { method = 'get', url, params, data } = config || {};
      const safeConfig = { method, url, params, data };
      return JSON.stringify(safeConfig);
  }\<close>
  The config is an object (\<open>runFetch\<close> has checked \<open>hasUrl\<close> before), so \<open>config || {}\<close>
  is the config. The default of \<open>method\<close> applies when the property is absent or
  \<open>undefined\<close>. The argument of \<open>JSON.stringify\<close> is an object, so the result is a
  string; the \<open>None\<close> branch below is never taken (lemma \<open>JSON_stringify_object\<close>).
\<close>

definition getRequestKey :: "config \<Rightarrow> string" where
  "getRequestKey config =
     (let method = (case get_prop config ''method'' of JUndefined \<Rightarrow> JStr ''get'' | m \<Rightarrow> m);
          url = get_prop config ''url'';
          params = get_prop config ''params'';
          data = get_prop config ''data'';
          safeConfig = JObj [(''method'', method), (''url'', url),
                             (''params'', params), (''data'', data)]
      in case JSON_stringify safeConfig of Some s \<Rightarrow> s | None \<Rightarrow> [])"

text \<open>
  Structural identity of two values up to the order of object properties, as the
  specification words it: the same keys, and under each key values that are again
  structurally identical.
\<close>

fun same_structure :: "json \<Rightarrow> json \<Rightarrow> bool" where
  "same_structure (JObj xs) (JObj ys) =
     (set (map fst xs) = set (map fst ys) \<and>
      list_all (\<lambda>(k, v). list_all (\<lambda>(k', v'). if k = k' then same_structure v v' else True) ys) xs)"
| "same_structure (JArr xs) (JArr ys) = list_all2 same_structure xs ys"
| "same_structure a b = (a = b)"

section \<open>Instances, the in-flight registry and the event loop\<close>

datatype FetchStatus = Inactive | Loading | Done

text \<open>
  What a promise can reject with: the \<open>Error\<close> that \<open>runFetch\<close> throws itself, a
  cancellation (\<open>axios.isCancel\<close> holds) and any other failure of the transport.
\<close>

datatype thrown = ConfigError | Canceled | TransportError string

definition isCancel :: "thrown \<Rightarrow> bool" where
  "isCancel e = (e = Canceled)"

text \<open>The response of the transport: \<open>response.data\<close>, \<open>.status\<close>, \<open>.headers\<close>.\<close>

record response =
  data :: json
  status_r :: json
  headers_r :: json

datatype settlement = Resolved response | Rejected thrown

text \<open>The object \<open>fetchResult\<close> of computed views, as a callback reads it.\<close>

record view =
  v_result :: json
  v_statusCode :: json
  v_headers :: json
  v_error :: "thrown option"
  v_isLoading :: bool
  v_isFinished :: bool
  v_safeResult :: json

text \<open>The option \<open>poll\<close>: a number of milliseconds, or a function of \<open>fetchResult\<close>.\<close>

datatype poll_spec = PollConst int | PollFun "view \<Rightarrow> int"

text \<open>
  One fetch instance: the fields of the reactive \<open>state\<close>, the variables of the closure
  (\<open>controller\<close>, \<open>shared\<close>, \<open>currentKey\<close>, \<open>currentConfig\<close>, \<open>pollTimer\<close>) and the options
  taken from the initial config. \<open>null\<close> is \<open>None\<close> (\<open>JNull\<close> for data); a controller
  and a shared promise are named by the number of the transport call they belong to;
  a callback option says whether a function was configured.
\<close>

record fetch_instance =
  result :: json
  statusCode :: json
  headers :: json
  error :: "thrown option"
  status :: FetchStatus
  overrideSafeResult :: json
  controller :: "nat option"
  shared :: "nat option"
  currentKey :: "string option"
  currentConfig :: config
  pollTimer :: "nat option"
  onSuccess :: bool
  onError :: bool
  onFinish :: bool
  safeResultGetter :: "json \<Rightarrow> json"
  lazy :: bool
  poll :: poll_spec

text \<open>
  \<^verbatim>\<open>safeResult: computed(() => state.overrideSafeResult === undefined
        ? safeResultGetter(state.result) : state.overrideSafeResult)\<close>
\<close>

definition safeResult :: "fetch_instance \<Rightarrow> json" where
  "safeResult s =
     (if overrideSafeResult s = JUndefined then safeResultGetter s (result s)
      else overrideSafeResult s)"

definition fetchResult :: "fetch_instance \<Rightarrow> view" where
  "fetchResult s =
     \<lparr> v_result = result s, v_statusCode = statusCode s, v_headers = headers s,
       v_error = error s, v_isLoading = (status s = Loading),
       v_isFinished = (status s = Done), v_safeResult = safeResult s \<rparr>"

text \<open>\<open>typeof poll === 'function' ? poll(fetchResult) : poll\<close>\<close>

definition pollTiming :: "fetch_instance \<Rightarrow> int" where
  "pollTiming s = (case poll s of PollConst n \<Rightarrow> n | PollFun f \<Rightarrow> f (fetchResult s))"

text \<open>
  A transport call: the instance whose \<open>runFetch\<close> issued it, the config it was issued
  with, whether its abort signal was triggered, and how it settled once it has. The
  promise \<open>shared\<close> of the call is the transport's promise after the \<open>finally\<close> callback,
  so it settles the same way.
\<close>

record call =
  creator :: nat
  request :: config
  aborted :: bool
  settled :: "settlement option"

text \<open>A suspended activation of \<open>runFetch\<close>: its instance and the call it awaits.\<close>

record run =
  r_inst :: nat
  r_call :: nat
  r_outcome :: "settlement option"

record timer =
  t_id :: nat
  t_inst :: nat
  t_delay :: int

datatype callback = CbSuccess nat | CbError nat | CbFinish nat

text \<open>
  The whole program state: the module-level map \<open>pendingRequests\<close>, every transport
  call issued so far (the list is the transport's log), the instances, the activations
  of \<open>runFetch\<close>, the pending timeouts, and the callbacks invoked so far.
\<close>

record world =
  pendingRequests :: "string \<rightharpoonup> nat"
  calls :: "call list"
  instances :: "nat \<rightharpoonup> fetch_instance"
  runs :: "run list"
  timers :: "timer list"
  timer_count :: nat
  log :: "callback list"

definition init_world :: world where
  "init_world =
     \<lparr> pendingRequests = Map.empty, calls = [], instances = Map.empty, runs = [],
       timers = [], timer_count = 0, log = [] \<rparr>"

definition put_inst :: "nat \<Rightarrow> fetch_instance \<Rightarrow> world \<Rightarrow> world" where
  "put_inst i s w = w\<lparr>instances := (instances w)(i \<mapsto> s)\<rparr>"

definition emit :: "bool \<Rightarrow> callback \<Rightarrow> world \<Rightarrow> world" where
  "emit configured cb w = (if configured then w\<lparr>log := log w @ [cb]\<rparr> else w)"

subsection \<open>\<open>runFetch\<close>\<close>

text \<open>
  The part of \<open>runFetch\<close> before \<open>await shared\<close> (lines 59 to 85), run by instance \<open>i\<close>
  whose variables are \<open>s\<close>. It throws without touching anything when the config has no
  url; otherwise it attaches to the registered call of the key or issues a new
  transport call, sets the status and suspends: the result names the new activation.
\<close>

definition runFetch :: "nat \<Rightarrow> fetch_instance \<Rightarrow> config \<Rightarrow> world \<Rightarrow> (thrown + nat) \<times> world" where
  "runFetch i s config w =
     (if \<not> hasUrl config then (Inl ConfigError, w)
      else
        let key = getRequestKey config;
            s1 = s\<lparr>currentKey := Some key\<rparr>;
            (c, s2, w1) =
              (case pendingRequests w key of
                 Some c \<Rightarrow> (c, s1\<lparr>shared := Some c\<rparr>, w)
               | None \<Rightarrow>
                   let c = length (calls w)
                   in (c, s1\<lparr>controller := Some c, shared := Some c\<rparr>,
                       w\<lparr>calls := calls w @
                            [\<lparr>creator = i, request = config, aborted = False, settled = None\<rparr>],
                         pendingRequests := (pendingRequests w)(key \<mapsto> c)\<rparr>));
            s3 = s2\<lparr>status := Loading\<rparr>;
            w2 = put_inst i s3 w1
        in (Inr (length (runs w2)),
            w2\<lparr>runs := runs w2 @ [\<lparr>r_inst = i, r_call = c, r_outcome = None\<rparr>]\<rparr>))"

text \<open>
  The transport settles call \<open>c\<close> and the callback given to \<open>finally\<close> runs:
  \<open>pendingRequests.delete(currentKey)\<close>, where \<open>currentKey\<close> is the variable of the
  instance that issued the call, read at this moment.
\<close>

definition settle :: "nat \<Rightarrow> settlement \<Rightarrow> world \<Rightarrow> world" where
  "settle c outcome w =
     (if c < length (calls w) \<and> settled (calls w ! c) = None then
        let cl = calls w ! c;
            w1 = (case instances w (creator cl) of
                    None \<Rightarrow> w
                  | Some s \<Rightarrow>
                      (case currentKey s of
                         None \<Rightarrow> w
                       | Some k \<Rightarrow> w\<lparr>pendingRequests := (pendingRequests w)(k := None)\<rparr>))
        in w1\<lparr>calls := (calls w1)[c := cl\<lparr>settled := Some outcome\<rparr>]\<rparr>
      else w)"

text \<open>The \<open>finally\<close> block of \<open>runFetch\<close> (lines 112 to 122) for instance \<open>i\<close>.\<close>

definition run_finally :: "nat \<Rightarrow> world \<Rightarrow> world" where
  "run_finally i w =
     (case instances w i of
        None \<Rightarrow> w
      | Some s \<Rightarrow>
          let w1 = (if pollTiming s \<ge> 0 then
                      put_inst i (s\<lparr>pollTimer := Some (timer_count w)\<rparr>)
                        (w\<lparr>timers := timers w @
                             [\<lparr>t_id = timer_count w, t_inst = i, t_delay = pollTiming s\<rparr>],
                           timer_count := Suc (timer_count w)\<rparr>)
                    else w)
          in emit (onFinish s) (CbFinish i) w1)"

text \<open>
  The part of activation \<open>r\<close> after \<open>await shared\<close> (lines 85 to 122), once the awaited
  call has settled with \<open>outcome\<close>: the \<open>try\<close> or the \<open>catch\<close> block, then \<open>finally\<close>.
\<close>

definition run_after_await :: "nat \<Rightarrow> fetch_instance \<Rightarrow> settlement \<Rightarrow> world \<Rightarrow> world" where
  "run_after_await i s outcome w =
     (case outcome of
        Resolved resp \<Rightarrow>
          emit (onSuccess s) (CbSuccess i)
            (put_inst i (s\<lparr>overrideSafeResult := JUndefined, result := data resp,
                           statusCode := status_r resp, headers := headers_r resp,
                           error := None, status := Done\<rparr>) w)
      | Rejected e \<Rightarrow>
          (if \<not> isCancel e then
             emit (onError s) (CbError i) (put_inst i (s\<lparr>error := Some e, status := Done\<rparr>) w)
           else w))"

definition runFetch_resume :: "nat \<Rightarrow> world \<Rightarrow> settlement option \<times> world" where
  "runFetch_resume r w =
     (if r < length (runs w) \<and> r_outcome (runs w ! r) = None \<and>
         r_call (runs w ! r) < length (calls w) then
        (case (settled (calls w ! r_call (runs w ! r)), instances w (r_inst (runs w ! r))) of
           (Some outcome, Some s) \<Rightarrow>
             let i = r_inst (runs w ! r);
                 w1 = run_after_await i s outcome w;
                 w2 = run_finally i w1
             in (Some outcome,
                 w2\<lparr>runs := (runs w2)[r := (runs w2 ! r)\<lparr>r_outcome := Some outcome\<rparr>]\<rparr>)
         | _ \<Rightarrow> (None, w))
      else (None, w))"

subsection \<open>Creating an instance and its methods\<close>

text \<open>
  The argument of the function returned by \<open>createFetch\<close>: a url, or an object whose
  options are taken out and whose remaining properties are the axios config. An option
  that is absent takes its default.
\<close>

record options =
  o_onSuccess :: bool
  o_onError :: bool
  o_onFinish :: bool
  o_safeResultGetter :: "(json \<Rightarrow> json) option"
  o_lazy :: bool
  o_poll :: "poll_spec option"
  o_axiosConfig :: config

datatype config_arg = Url string | Config options

datatype fulfill_arg = FUrl string | FConfig config

definition default_options :: "config \<Rightarrow> options" where
  "default_options c =
     \<lparr> o_onSuccess = False, o_onError = False, o_onFinish = False,
       o_safeResultGetter = None, o_lazy = False, o_poll = None, o_axiosConfig = c \<rparr>"

definition new_instance :: "options \<Rightarrow> fetch_instance" where
  "new_instance opts =
     \<lparr> result = JNull, statusCode = JNull, headers = JNull, error = None,
       status = Inactive, overrideSafeResult = JUndefined,
       controller = None, shared = None, currentKey = None,
       currentConfig = o_axiosConfig opts, pollTimer = None,
       onSuccess = o_onSuccess opts, onError = o_onError opts, onFinish = o_onFinish opts,
       safeResultGetter = (case o_safeResultGetter opts of None \<Rightarrow> (\<lambda>r. r) | Some g \<Rightarrow> g),
       lazy = o_lazy opts,
       poll = (case o_poll opts of None \<Rightarrow> PollConst (- 1) | Some p \<Rightarrow> p) \<rparr>"

text \<open>
  The function returned by \<open>createFetch\<close> (lines 23 to 130) is called: instance \<open>i\<close> is
  created; it runs at once unless it is lazy or has no url.
\<close>

definition createFetch :: "nat \<Rightarrow> config_arg \<Rightarrow> world \<Rightarrow> world" where
  "createFetch i arg w =
     (case instances w i of
        Some _ \<Rightarrow> w
      | None \<Rightarrow>
          let opts = (case arg of Url u \<Rightarrow> default_options [(''url'', JStr u)] | Config c \<Rightarrow> c);
              s = new_instance opts;
              w1 = put_inst i s w
          in if \<not> lazy s \<and> hasUrl (currentConfig s)
             then snd (runFetch i s (currentConfig s) w1)
             else put_inst i (s\<lparr>status := Inactive\<rparr>) w1)"

definition overrideSafeResult_m :: "nat \<Rightarrow> json \<Rightarrow> world \<Rightarrow> world" where
  "overrideSafeResult_m i v w =
     (case instances w i of None \<Rightarrow> w
      | Some s \<Rightarrow> put_inst i (s\<lparr>overrideSafeResult := v\<rparr>) w)"

definition clearSafeOverride :: "nat \<Rightarrow> world \<Rightarrow> world" where
  "clearSafeOverride i w =
     (case instances w i of None \<Rightarrow> w
      | Some s \<Rightarrow> put_inst i (s\<lparr>overrideSafeResult := JUndefined\<rparr>) w)"

definition poll_m :: "nat \<Rightarrow> poll_spec \<Rightarrow> world \<Rightarrow> world" where
  "poll_m i timing w =
     (case instances w i of None \<Rightarrow> w
      | Some s0 \<Rightarrow>
          let s = s0\<lparr>poll := timing\<rparr>;
              w1 = put_inst i s w
          in if \<not> lazy s \<and> pollTiming s \<ge> 0 \<and> pollTimer s = None \<and>
                status s = Inactive \<and> hasUrl (currentConfig s)
             then snd (runFetch i s (currentConfig s) w1)
             else w1)"

definition stopPoll :: "nat \<Rightarrow> world \<Rightarrow> world" where
  "stopPoll i w =
     (case instances w i of None \<Rightarrow> w
      | Some s \<Rightarrow>
          (case pollTimer s of
             None \<Rightarrow> w
           | Some t \<Rightarrow>
               put_inst i (s\<lparr>pollTimer := None\<rparr>)
                 (w\<lparr>timers := filter (\<lambda>x. t_id x \<noteq> t) (timers w)\<rparr>)))"

definition stop :: "nat \<Rightarrow> world \<Rightarrow> world" where
  "stop i w =
     (case instances w i of None \<Rightarrow> w
      | Some s \<Rightarrow>
          (case controller s of
             None \<Rightarrow> w
           | Some c \<Rightarrow>
               if status s = Loading then
                 put_inst i (s\<lparr>status := Done\<rparr>)
                   (w\<lparr>calls := (calls w)[c := (calls w ! c)\<lparr>aborted := True\<rparr>]\<rparr>)
               else w))"

definition resume :: "nat \<Rightarrow> world \<Rightarrow> (thrown + nat) option \<times> world" where
  "resume i w =
     (case instances w i of None \<Rightarrow> (None, w)
      | Some s \<Rightarrow>
          if status s = Inactive
          then (case runFetch i s (currentConfig s) w of (x, w') \<Rightarrow> (Some x, w'))
          else (None, w))"

definition start :: "nat \<Rightarrow> world \<Rightarrow> (thrown + nat) option \<times> world" where
  "start i w =
     (case instances w i of None \<Rightarrow> (None, w)
      | Some s \<Rightarrow>
          if status s \<noteq> Loading
          then (case runFetch i s (currentConfig s) w of (x, w') \<Rightarrow> (Some x, w'))
          else (None, w))"

definition clear :: "nat \<Rightarrow> world \<Rightarrow> world" where
  "clear i w =
     (case instances w i of None \<Rightarrow> w
      | Some s \<Rightarrow> put_inst i (s\<lparr>overrideSafeResult := JUndefined, result := JNull\<rparr>) w)"

definition fulfill :: "nat \<Rightarrow> fulfill_arg \<Rightarrow> world \<Rightarrow> world" where
  "fulfill i arg w =
     (case instances w i of None \<Rightarrow> w
      | Some s \<Rightarrow>
          put_inst i
            (s\<lparr>currentConfig := (case arg of FUrl u \<Rightarrow> [(''url'', JStr u)] | FConfig c \<Rightarrow> c)\<rparr>) w)"

text \<open>
  A pending timeout fires: \<open>() => runFetch(currentConfig)\<close>, with the config the
  instance has at that moment. The variable \<open>pollTimer\<close> keeps its handle.
\<close>

definition fire :: "nat \<Rightarrow> world \<Rightarrow> world" where
  "fire t w =
     (case filter (\<lambda>x. t_id x = t) (timers w) of
        [] \<Rightarrow> w
      | x # _ \<Rightarrow>
          let w1 = w\<lparr>timers := filter (\<lambda>y. t_id y \<noteq> t) (timers w)\<rparr>
          in (case instances w1 (t_inst x) of
                None \<Rightarrow> w1
              | Some s \<Rightarrow> snd (runFetch (t_inst x) s (currentConfig s) w1)))"

subsection \<open>The event loop\<close>

text \<open>
  Everything that can happen, one event per turn: a caller creates an instance or calls
  one of its methods, the transport settles a call, a suspended activation of
  \<open>runFetch\<close> goes on after its \<open>await\<close>, a timeout fires. An event that cannot happen
  in the current state leaves it as it is. Callbacks are taken to observe only: they
  neither throw nor call back into the instance.
\<close>

datatype event =
    Create nat config_arg
  | OverrideSafeResult nat json
  | ClearSafeOverride nat
  | Poll nat poll_spec
  | StopPoll nat
  | Stop nat
  | Resume nat
  | Start nat
  | Clear nat
  | Fulfill nat fulfill_arg
  | Settle nat settlement
  | Continue nat
  | Fire nat

fun step :: "event \<Rightarrow> world \<Rightarrow> world" where
  "step (Create i arg) w = createFetch i arg w"
| "step (OverrideSafeResult i v) w = overrideSafeResult_m i v w"
| "step (ClearSafeOverride i) w = clearSafeOverride i w"
| "step (Poll i timing) w = poll_m i timing w"
| "step (StopPoll i) w = stopPoll i w"
| "step (Stop i) w = stop i w"
| "step (Resume i) w = snd (resume i w)"
| "step (Start i) w = snd (start i w)"
| "step (Clear i) w = clear i w"
| "step (Fulfill i arg) w = fulfill i arg w"
| "step (Settle c outcome) w = settle c outcome w"
| "step (Continue r) w = snd (runFetch_resume r w)"
| "step (Fire t) w = fire t w"

fun exec :: "event list \<Rightarrow> world \<Rightarrow> world" where
  "exec [] w = w"
| "exec (e # es) w = exec es (step e w)"

section \<open>What the claims are stated with\<close>

text \<open>
  Two configs that are structurally identical in the four fields of the key, whatever
  the order of the properties inside them.
\<close>

definition same_request :: "config \<Rightarrow> config \<Rightarrow> bool" where
  "same_request a b =
     (same_structure (get_prop a ''method'') (get_prop b ''method'') \<and>
      same_structure (get_prop a ''url'') (get_prop b ''url'') \<and>
      same_structure (get_prop a ''params'') (get_prop b ''params'') \<and>
      same_structure (get_prop a ''data'') (get_prop b ''data''))"

text \<open>What an observer reads from instance \<open>i\<close>.\<close>

definition status_of :: "world \<Rightarrow> nat \<Rightarrow> FetchStatus option" where
  "status_of w i = map_option status (instances w i)"

definition error_of :: "world \<Rightarrow> nat \<Rightarrow> thrown option option" where
  "error_of w i = map_option error (instances w i)"




definition safeResult_of :: "world \<Rightarrow> nat \<Rightarrow> json option" where
  "safeResult_of w i = map_option safeResult (instances w i)"

text \<open>The safe result of instance \<open>i\<close> is the one derived from its result.\<close>

definition derived :: "world \<Rightarrow> nat \<Rightarrow> bool" where
  "derived w i =
     (case instances w i of None \<Rightarrow> False
      | Some s \<Rightarrow> safeResult s = safeResultGetter s (result s))"

text \<open>The key under which a transport call was issued, and the calls still in flight.\<close>

definition key_of_call :: "world \<Rightarrow> nat \<Rightarrow> string" where
  "key_of_call w c = getRequestKey (request (calls w ! c))"

definition in_flight :: "world \<Rightarrow> nat \<Rightarrow> bool" where
  "in_flight w c = (c < length (calls w) \<and> settled (calls w ! c) = None)"

text \<open>The pending timeouts of instance \<open>i\<close>.\<close>

definition timers_of :: "world \<Rightarrow> nat \<Rightarrow> nat list" where
  "timers_of w i = map t_id (filter (\<lambda>x. t_inst x = i) (timers w))"

text \<open>
  The events that write the override of instance \<open>i\<close>: the three methods that assign
  it, and an activation of \<open>runFetch\<close> of the instance going on after a call that
  resolved.
\<close>

fun resets_override :: "nat \<Rightarrow> event \<Rightarrow> world \<Rightarrow> bool" where
  "resets_override i (OverrideSafeResult j v) w = (i = j)"
| "resets_override i (ClearSafeOverride j) w = (i = j)"
| "resets_override i (Clear j) w = (i = j)"
| "resets_override i (Continue r) w =
     (r < length (runs w) \<and> r_inst (runs w ! r) = i \<and>
      (case fst (runFetch_resume r w) of Some (Resolved _) \<Rightarrow> True | _ \<Rightarrow> False))"
| "resets_override i _ w = False"

fun override_kept :: "nat \<Rightarrow> event list \<Rightarrow> world \<Rightarrow> bool" where
  "override_kept i [] w = True"
| "override_kept i (e # es) w = (\<not> resets_override i e w \<and> override_kept i es (step e w))"

text \<open>
  The events that write the error of instance \<open>i\<close>: an activation of \<open>runFetch\<close> of
  the instance going on after a call that resolved, or that rejected with something
  other than a cancellation.
\<close>

fun writes_error :: "nat \<Rightarrow> event \<Rightarrow> world \<Rightarrow> bool" where
  "writes_error i (Continue r) w =
     (r < length (runs w) \<and> r_inst (runs w ! r) = i \<and>
      (case fst (runFetch_resume r w) of
         None \<Rightarrow> False
       | Some (Resolved _) \<Rightarrow> True
       | Some (Rejected e) \<Rightarrow> \<not> isCancel e))"
| "writes_error i _ w = False"

fun error_kept :: "nat \<Rightarrow> event list \<Rightarrow> world \<Rightarrow> bool" where
  "error_kept i [] w = True"
| "error_kept i (e # es) w = (\<not> writes_error i e w \<and> error_kept i es (step e w))"

subsection \<open>Concrete configs and event sequences\<close>

definition lazy_url :: "string \<Rightarrow> config_arg" where
  "lazy_url u = Config ((default_options [(''url'', JStr u)])\<lparr>o_lazy := True\<rparr>)"

definition ok_response :: response where
  "ok_response = \<lparr> data = JArr [JStr ''ann''], status_r = JNum 200, headers_r = JObj [] \<rparr>"

definition cfg_page_size :: config where
  "cfg_page_size =
     [(''url'', JStr ''/users''), (''params'', JObj [(''page'', JNum 1), (''size'', JNum 20)])]"

definition cfg_size_page :: config where
  "cfg_size_page =
     [(''url'', JStr ''/users''), (''params'', JObj [(''size'', JNum 20), (''page'', JNum 1)])]"

definition cfg_plain :: config where
  "cfg_plain =
     [(''url'', JStr ''/users''), (''headers'', JObj [(''accept'', JStr ''text/plain'')]),
      (''params'', JObj [(''page'', JNum 1)])]"

definition cfg_reordered :: config where
  "cfg_reordered =
     [(''params'', JObj [(''page'', JNum 1)]), (''timeout'', JNum 5), (''url'', JStr ''/users'')]"

text \<open>
  A lazy instance is started on \<open>/a\<close>, stopped, pointed at \<open>/b\<close> and started again, all
  in one turn; then the aborted call to \<open>/a\<close> rejects and its activation goes on.
\<close>

definition restart_trace :: "event list" where
  "restart_trace =
     [Create 0 (lazy_url ''/a''), Start 0, Stop 0, Fulfill 0 (FUrl ''/b''), Start 0,
      Settle 0 (Rejected Canceled), Continue 0]"

text \<open>A run fails; then the same instance is started again.\<close>

definition failed_trace :: "event list" where
  "failed_trace =
     [Create 0 (lazy_url ''/a''), Start 0, Settle 0 (Rejected (TransportError ''boom'')),
      Continue 0]"

definition retry_trace :: "event list" where
  "retry_trace = failed_trace @ [Start 0]"


text \<open>
  An instance polling every second completes its first run; the caller starts it
  again before the timeout, and that run completes too.
\<close>

definition polling_options :: options where
  "polling_options = (default_options [(''url'', JStr ''/a'')])\<lparr>o_poll := Some (PollConst 1000)\<rparr>"

definition poll_trace :: "event list" where
  "poll_trace =
     [Create 0 (Config polling_options), Settle 0 (Resolved ok_response), Continue 0,
      Start 0, Settle 1 (Resolved ok_response), Continue 1]"






section \<open>Supporting lemmas\<close>

lemma JSON_stringify_object: "JSON_stringify (JObj kvs) = Some (serialize (JObj kvs))"
  by (simp add: JSON_stringify_def)

lemma instances_put_inst:
  "instances (put_inst j sj w) i = (if i = j then Some sj else instances w i)"
  by (simp add: put_inst_def)

lemma runFetch_override:
  assumes "instances w i = Some s" and "instances w j = Some sj"
  shows "\<exists>s'. instances (snd (runFetch j sj cfg w)) i = Some s' \<and>
              overrideSafeResult s' = overrideSafeResult s"
  using assms by (auto simp: runFetch_def put_inst_def Let_def split: option.splits)

lemma run_finally_override:
  assumes "instances w i = Some s"
  shows "\<exists>s'. instances (run_finally j w) i = Some s' \<and>
              overrideSafeResult s' = overrideSafeResult s \<and> result s' = result s
              \<and> safeResultGetter s' = safeResultGetter s"
  using assms by (auto simp: run_finally_def put_inst_def emit_def Let_def split: option.splits)

lemma snd_resume:
  "snd (resume j w) =
     (case instances w j of None \<Rightarrow> w
      | Some sj \<Rightarrow> if status sj = Inactive then snd (runFetch j sj (currentConfig sj) w) else w)"
  by (simp add: resume_def split: option.splits prod.splits)

lemma snd_start:
  "snd (start j w) =
     (case instances w j of None \<Rightarrow> w
      | Some sj \<Rightarrow> if status sj \<noteq> Loading then snd (runFetch j sj (currentConfig sj) w) else w)"
  by (simp add: start_def split: option.splits prod.splits)

lemma create_override:
  assumes "instances w i = Some s"
  shows "\<exists>s'. instances (createFetch j arg w) i = Some s' \<and> overrideSafeResult s' = overrideSafeResult s"
proof (cases "instances w j")
  case None
  with assms have ij: "i \<noteq> j" by auto
  define sj where "sj = new_instance (case arg of Url u \<Rightarrow> default_options [(''url'', JStr u)] | Config c \<Rightarrow> c)"
  have a: "instances (put_inst j sj w) i = Some s" "instances (put_inst j sj w) j = Some sj"
    using assms ij by (simp_all add: instances_put_inst)
  have c: "createFetch j arg w =
             (if \<not> lazy sj \<and> hasUrl (currentConfig sj)
              then snd (runFetch j sj (currentConfig sj) (put_inst j sj w))
              else put_inst j (sj\<lparr>status := Inactive\<rparr>) (put_inst j sj w))"
    using None by (simp add: createFetch_def Let_def sj_def)
  show ?thesis
    using runFetch_override [OF a, of "currentConfig sj"] a ij
    by (simp add: c instances_put_inst)
next
  case (Some a)
  then show ?thesis using assms by (simp add: createFetch_def)
qed

lemma poll_override:
  assumes "instances w i = Some s"
  shows "\<exists>s'. instances (poll_m j timing w) i = Some s' \<and> overrideSafeResult s' = overrideSafeResult s"
proof (cases "instances w j")
  case None
  then show ?thesis using assms by (simp add: poll_m_def)
next
  case (Some s0)
  define sj where "sj = s0\<lparr>poll := timing\<rparr>"
  obtain s1 where s1: "instances (put_inst j sj w) i = Some s1"
      "overrideSafeResult s1 = overrideSafeResult s"
    using assms Some by (cases "i = j") (auto simp: instances_put_inst sj_def)
  have j: "instances (put_inst j sj w) j = Some sj" by (simp add: instances_put_inst)
  show ?thesis
    using runFetch_override [OF s1(1) j, of "currentConfig sj"] s1 Some
    by (auto simp: poll_m_def Let_def sj_def)
qed

lemma fire_override:
  assumes "instances w i = Some s"
  shows "\<exists>s'. instances (fire t w) i = Some s' \<and> overrideSafeResult s' = overrideSafeResult s"
proof (cases "filter (\<lambda>x. t_id x = t) (timers w)")
  case Nil
  then show ?thesis using assms by (simp add: fire_def)
next
  case (Cons x xs)
  define w1 where "w1 = w\<lparr>timers := filter (\<lambda>y. t_id y \<noteq> t) (timers w)\<rparr>"
  have i1: "instances w1 = instances w" by (simp add: w1_def)
  have f: "fire t w = (case instances w (t_inst x) of None \<Rightarrow> w1
                       | Some sj \<Rightarrow> snd (runFetch (t_inst x) sj (currentConfig sj) w1))"
    using Cons unfolding w1_def by (simp add: fire_def Let_def)
  show ?thesis
  proof (cases "instances w (t_inst x)")
    case None
    then show ?thesis using f i1 assms by simp
  next
    case (Some sj)
    have "\<exists>s'. instances (snd (runFetch (t_inst x) sj (currentConfig sj) w1)) i = Some s' \<and>
            overrideSafeResult s' = overrideSafeResult s"
      using assms(1) Some i1 by (intro runFetch_override) auto
    then show ?thesis using f Some by simp
  qed
qed

lemma run_after_await_override:
  assumes "instances w i = Some s" and "instances w j = Some sj"
      and "j = i \<Longrightarrow> outcome = Rejected e"
  shows "\<exists>s'. instances (run_after_await j sj outcome w) i = Some s' \<and>
              overrideSafeResult s' = overrideSafeResult s"
  using assms
  by (cases outcome) (auto simp: run_after_await_def emit_def instances_put_inst)

lemma resume_override:
  assumes "instances w i = Some s" and "\<not> resets_override i (Continue r) w"
  shows "\<exists>s'. instances (snd (runFetch_resume r w)) i = Some s' \<and>
              overrideSafeResult s' = overrideSafeResult s"
proof (cases "runFetch_resume r w = (None, w)")
  case True
  then show ?thesis using assms(1) by simp
next
  case False
  define j where "j = r_inst (runs w ! r)"
  from False obtain outcome sj where
    g: "r < length (runs w)" and
    o: "settled (calls w ! r_call (runs w ! r)) = Some outcome" and
    sj: "instances w j = Some sj"
    by (auto simp: runFetch_resume_def j_def split: if_splits option.splits)
  define w2 where "w2 = run_finally j (run_after_await j sj outcome w)"
  have eq: "runFetch_resume r w =
              (Some outcome, w2\<lparr>runs := (runs w2)[r := (runs w2 ! r)\<lparr>r_outcome := Some outcome\<rparr>]\<rparr>)"
    using False o sj unfolding w2_def j_def
    by (auto simp: runFetch_resume_def Let_def split: if_splits)
  have rej: "j = i \<Longrightarrow> \<exists>e. outcome = Rejected e"
    using assms(2) g eq by (cases outcome) (auto simp: j_def)
  have "\<exists>s1. instances (run_after_await j sj outcome w) i = Some s1 \<and>
              overrideSafeResult s1 = overrideSafeResult s"
  proof (cases "j = i")
    case True
    then obtain e where "outcome = Rejected e" using rej by blast
    then show ?thesis using run_after_await_override [OF assms(1) sj] by blast
  next
    case False
    then show ?thesis using run_after_await_override [OF assms(1) sj] by blast
  qed
  then obtain s1 where s1: "instances (run_after_await j sj outcome w) i = Some s1"
      "overrideSafeResult s1 = overrideSafeResult s" by blast
  show ?thesis
    using run_finally_override [OF s1(1), of j] s1(2) by (auto simp: eq w2_def)
qed

lemma step_override:
  assumes "instances w i = Some s" and "\<not> resets_override i e w"
  shows "\<exists>s'. instances (step e w) i = Some s' \<and> overrideSafeResult s' = overrideSafeResult s"
proof (cases e)
  case (Create j arg)
  then show ?thesis using create_override [OF assms(1)] by simp
next
  case (OverrideSafeResult j v)
  then show ?thesis using assms
    by (auto simp: overrideSafeResult_m_def put_inst_def split: option.splits)
next
  case (ClearSafeOverride j)
  then show ?thesis using assms
    by (auto simp: clearSafeOverride_def put_inst_def split: option.splits)
next
  case (Poll j timing)
  then show ?thesis using poll_override [OF assms(1)] by simp
next
  case (StopPoll j)
  then show ?thesis using assms
    by (auto simp: stopPoll_def put_inst_def split: option.splits)
next
  case (Stop j)
  then show ?thesis using assms
    by (auto simp: stop_def put_inst_def split: option.splits)
next
  case (Resume j)
  then show ?thesis using assms(1) runFetch_override [OF assms(1), of j]
    by (auto simp: snd_resume split: option.splits)
next
  case (Start j)
  then show ?thesis using assms(1) runFetch_override [OF assms(1), of j]
    by (auto simp: snd_start split: option.splits)
next
  case (Clear j)
  then show ?thesis using assms
    by (auto simp: clear_def put_inst_def split: option.splits)
next
  case (Fulfill j arg)
  then show ?thesis using assms
    by (auto simp: fulfill_def put_inst_def split: option.splits)
next
  case (Settle c outcome)
  then show ?thesis using assms
    by (auto simp: settle_def Let_def split: option.splits)
next
  case (Continue r)
  then show ?thesis using resume_override [OF assms(1)] assms(2) by simp
next
  case (Fire t)
  then show ?thesis using fire_override [OF assms(1)] by simp
qed


lemma exec_override:
  assumes "instances w i = Some s" and "override_kept i es w"
  shows "\<exists>s'. instances (exec es w) i = Some s' \<and> overrideSafeResult s' = overrideSafeResult s"
  using assms
proof (induction es arbitrary: w s)
  case Nil
  then show ?case by simp
next
  case (Cons e es)
  from Cons.prems have k: "\<not> resets_override i e w" "override_kept i es (step e w)" by simp_all
  from step_override [OF Cons.prems(1) k(1)] obtain s1 where
    s1: "instances (step e w) i = Some s1" "overrideSafeResult s1 = overrideSafeResult s" by blast
  from Cons.IH [OF s1(1) k(2)] s1(2) show ?case by simp
qed

lemma run_after_await_resolved:
  "instances (run_after_await i s (Resolved resp) w) i =
     Some (s\<lparr>overrideSafeResult := JUndefined, result := data resp,
             statusCode := status_r resp, headers := headers_r resp,
             error := None, status := Done\<rparr>)"
  by (simp add: run_after_await_def emit_def instances_put_inst)

lemma runFetch_resume_resolved:
  assumes "fst (runFetch_resume r w) = Some (Resolved resp)" and "r_inst (runs w ! r) = i"
  shows "\<exists>s'. instances (snd (runFetch_resume r w)) i = Some s' \<and>
              overrideSafeResult s' = JUndefined \<and> result s' = data resp"
proof -
  from assms(1) obtain sj where
    o: "settled (calls w ! r_call (runs w ! r)) = Some (Resolved resp)" and
    sj: "instances w i = Some sj" and
    g: "r < length (runs w) \<and> r_outcome (runs w ! r) = None \<and> r_call (runs w ! r) < length (calls w)"
    by (auto simp: runFetch_resume_def assms(2) Let_def split: if_splits option.splits)
  define w1 where "w1 = run_after_await i sj (Resolved resp) w"
  have eq: "snd (runFetch_resume r w) =
              (run_finally i w1)\<lparr>runs := (runs (run_finally i w1))
                 [r := (runs (run_finally i w1) ! r)\<lparr>r_outcome := Some (Resolved resp)\<rparr>]\<rparr>"
    using o sj g unfolding w1_def by (simp add: runFetch_resume_def assms(2) Let_def)
  obtain s1 where s1: "instances w1 i = Some s1" "overrideSafeResult s1 = JUndefined"
      "result s1 = data resp"
    unfolding w1_def by (simp add: run_after_await_resolved)
  from run_finally_override [OF s1(1), of i] s1(2,3) show ?thesis
    by (auto simp: eq)
qed

subsection \<open>Which events leave the error of an instance alone\<close>

lemma runFetch_error:
  assumes "instances w i = Some s" and "instances w j = Some sj"
  shows "\<exists>s'. instances (snd (runFetch j sj cfg w)) i = Some s' \<and> error s' = error s"
  using assms by (auto simp: runFetch_def put_inst_def Let_def split: option.splits)

lemma run_finally_error:
  assumes "instances w i = Some s"
  shows "\<exists>s'. instances (run_finally j w) i = Some s' \<and> error s' = error s \<and>
              status s' = status s"
  using assms by (auto simp: run_finally_def put_inst_def emit_def Let_def split: option.splits)

lemma createFetch_error:
  assumes "instances w i = Some s"
  shows "\<exists>s'. instances (createFetch j arg w) i = Some s' \<and> error s' = error s"
proof (cases "instances w j")
  case None
  with assms have ij: "i \<noteq> j" by auto
  define sj where
    "sj = new_instance (case arg of Url u \<Rightarrow> default_options [(''url'', JStr u)] | Config c \<Rightarrow> c)"
  have a: "instances (put_inst j sj w) i = Some s" "instances (put_inst j sj w) j = Some sj"
    using assms ij by (simp_all add: instances_put_inst)
  have c: "createFetch j arg w =
             (if \<not> lazy sj \<and> hasUrl (currentConfig sj)
              then snd (runFetch j sj (currentConfig sj) (put_inst j sj w))
              else put_inst j (sj\<lparr>status := Inactive\<rparr>) (put_inst j sj w))"
    using None by (simp add: createFetch_def Let_def sj_def)
  show ?thesis
    using runFetch_error [OF a, of "currentConfig sj"] a ij
    by (simp add: c instances_put_inst)
next
  case (Some a)
  then show ?thesis using assms by (simp add: createFetch_def)
qed

lemma poll_error:
  assumes "instances w i = Some s"
  shows "\<exists>s'. instances (poll_m j timing w) i = Some s' \<and> error s' = error s"
proof (cases "instances w j")
  case None
  then show ?thesis using assms by (simp add: poll_m_def)
next
  case (Some s0)
  define sj where "sj = s0\<lparr>poll := timing\<rparr>"
  obtain s1 where s1: "instances (put_inst j sj w) i = Some s1" "error s1 = error s"
    using assms Some by (cases "i = j") (auto simp: instances_put_inst sj_def)
  have j: "instances (put_inst j sj w) j = Some sj" by (simp add: instances_put_inst)
  show ?thesis
    using runFetch_error [OF s1(1) j, of "currentConfig sj"] s1 Some
    by (auto simp: poll_m_def Let_def sj_def)
qed

lemma fire_error:
  assumes "instances w i = Some s"
  shows "\<exists>s'. instances (fire t w) i = Some s' \<and> error s' = error s"
proof (cases "filter (\<lambda>x. t_id x = t) (timers w)")
  case Nil
  then show ?thesis using assms by (simp add: fire_def)
next
  case (Cons x xs)
  define w1 where "w1 = w\<lparr>timers := filter (\<lambda>y. t_id y \<noteq> t) (timers w)\<rparr>"
  have i1: "instances w1 = instances w" by (simp add: w1_def)
  have f: "fire t w = (case instances w (t_inst x) of None \<Rightarrow> w1
                       | Some sj \<Rightarrow> snd (runFetch (t_inst x) sj (currentConfig sj) w1))"
    using Cons unfolding w1_def by (simp add: fire_def Let_def)
  show ?thesis
  proof (cases "instances w (t_inst x)")
    case None
    then show ?thesis using f i1 assms by simp
  next
    case (Some sj)
    have "\<exists>s'. instances (snd (runFetch (t_inst x) sj (currentConfig sj) w1)) i = Some s' \<and>
            error s' = error s"
      using assms(1) Some i1 by (intro runFetch_error) auto
    then show ?thesis using f Some by simp
  qed
qed

text \<open>How an activation that goes on is put together.\<close>

lemma runFetch_resume_goes_on:
  assumes "fst (runFetch_resume r w) = Some outcome"
  shows "\<exists>sj. instances w (r_inst (runs w ! r)) = Some sj \<and>
              instances (snd (runFetch_resume r w)) =
                instances (run_finally (r_inst (runs w ! r))
                             (run_after_await (r_inst (runs w ! r)) sj outcome w)) \<and>
              log (snd (runFetch_resume r w)) =
                log (run_finally (r_inst (runs w ! r))
                       (run_after_await (r_inst (runs w ! r)) sj outcome w))"
  using assms
  by (auto simp: runFetch_resume_def Let_def split: if_splits option.splits)

lemma runFetch_resume_idle:
  assumes "fst (runFetch_resume r w) = None"
  shows "snd (runFetch_resume r w) = w"
  using assms
  by (auto simp: runFetch_resume_def Let_def split: if_splits option.splits)

lemma run_after_await_error:
  assumes "instances w i = Some s" and "instances w j = Some sj"
      and "j = i \<Longrightarrow> outcome = Rejected e \<and> isCancel e"
  shows "\<exists>s'. instances (run_after_await j sj outcome w) i = Some s' \<and> error s' = error s"
  using assms
  by (cases outcome) (auto simp: run_after_await_def emit_def instances_put_inst)

lemma resume_error:
  assumes "instances w i = Some s" and "\<not> writes_error i (Continue r) w"
  shows "\<exists>s'. instances (snd (runFetch_resume r w)) i = Some s' \<and> error s' = error s"
proof (cases "fst (runFetch_resume r w)")
  case None
  then show ?thesis using assms(1) by (simp add: runFetch_resume_idle)
next
  case (Some outcome)
  define j where "j = r_inst (runs w ! r)"
  from runFetch_resume_goes_on [OF Some] obtain sj where
    sj: "instances w j = Some sj" and
    eq: "instances (snd (runFetch_resume r w)) =
           instances (run_finally j (run_after_await j sj outcome w))"
    unfolding j_def by blast
  have g: "r < length (runs w)"
    using Some by (auto simp: runFetch_resume_def split: if_splits)
  have c: "j = i \<Longrightarrow> \<exists>e. outcome = Rejected e \<and> isCancel e"
    using assms(2) g Some by (cases outcome) (auto simp: j_def)
  have "\<exists>s1. instances (run_after_await j sj outcome w) i = Some s1 \<and> error s1 = error s"
  proof (cases "j = i")
    case True
    then obtain e where "outcome = Rejected e \<and> isCancel e" using c by blast
    then show ?thesis using run_after_await_error [OF assms(1) sj] by blast
  next
    case False
    then show ?thesis using run_after_await_error [OF assms(1) sj] by blast
  qed
  then obtain s1 where s1: "instances (run_after_await j sj outcome w) i = Some s1"
      "error s1 = error s" by blast
  show ?thesis
    using run_finally_error [OF s1(1), of j] s1(2) by (auto simp: eq)
qed

lemma step_error:
  assumes "instances w i = Some s" and "\<not> writes_error i e w"
  shows "\<exists>s'. instances (step e w) i = Some s' \<and> error s' = error s"
proof (cases e)
  case (Create j arg)
  then show ?thesis using createFetch_error [OF assms(1)] by simp
next
  case (OverrideSafeResult j v)
  then show ?thesis using assms
    by (auto simp: overrideSafeResult_m_def put_inst_def split: option.splits)
next
  case (ClearSafeOverride j)
  then show ?thesis using assms
    by (auto simp: clearSafeOverride_def put_inst_def split: option.splits)
next
  case (Poll j timing)
  then show ?thesis using poll_error [OF assms(1)] by simp
next
  case (StopPoll j)
  then show ?thesis using assms
    by (auto simp: stopPoll_def put_inst_def split: option.splits)
next
  case (Stop j)
  then show ?thesis using assms
    by (auto simp: stop_def put_inst_def split: option.splits)
next
  case (Resume j)
  then show ?thesis using assms(1) runFetch_error [OF assms(1), of j]
    by (auto simp: snd_resume split: option.splits)
next
  case (Start j)
  then show ?thesis using assms(1) runFetch_error [OF assms(1), of j]
    by (auto simp: snd_start split: option.splits)
next
  case (Clear j)
  then show ?thesis using assms
    by (auto simp: clear_def put_inst_def split: option.splits)
next
  case (Fulfill j arg)
  then show ?thesis using assms
    by (auto simp: fulfill_def put_inst_def split: option.splits)
next
  case (Settle c outcome)
  then show ?thesis using assms
    by (auto simp: settle_def Let_def split: option.splits)
next
  case (Continue r)
  then show ?thesis using resume_error [OF assms(1)] assms(2) by simp
next
  case (Fire t)
  then show ?thesis using fire_error [OF assms(1)] by simp
qed

lemma exec_error:
  assumes "instances w i = Some s" and "error_kept i es w"
  shows "\<exists>s'. instances (exec es w) i = Some s' \<and> error s' = error s"
  using assms
proof (induction es arbitrary: w s)
  case Nil
  then show ?case by simp
next
  case (Cons e es)
  from Cons.prems have k: "\<not> writes_error i e w" "error_kept i es (step e w)" by simp_all
  from step_error [OF Cons.prems(1) k(1)] obtain s1 where
    s1: "instances (step e w) i = Some s1" "error s1 = error s" by blast
  from Cons.IH [OF s1(1) k(2)] s1(2) show ?case by simp
qed

text \<open>What an activation that goes on writes into the error and the status.\<close>

lemma runFetch_resume_writes:
  assumes "fst (runFetch_resume r w) = Some outcome" and "r_inst (runs w ! r) = i"
  shows "(case outcome of
            Resolved resp \<Rightarrow>
              error_of (snd (runFetch_resume r w)) i = Some None \<and>
              status_of (snd (runFetch_resume r w)) i = Some Done
          | Rejected e \<Rightarrow>
              if isCancel e
              then error_of (snd (runFetch_resume r w)) i = error_of w i \<and>
                   status_of (snd (runFetch_resume r w)) i = status_of w i
              else error_of (snd (runFetch_resume r w)) i = Some (Some e) \<and>
                   status_of (snd (runFetch_resume r w)) i = Some Done)"
proof -
  from runFetch_resume_goes_on [OF assms(1)] obtain sj where
    sj: "instances w i = Some sj" and
    eq: "instances (snd (runFetch_resume r w)) =
           instances (run_finally i (run_after_await i sj outcome w))"
    unfolding assms(2) by blast
  have f: "\<And>w1 s1. instances w1 i = Some s1 \<Longrightarrow>
             error_of (run_finally i w1) i = Some (error s1) \<and>
             status_of (run_finally i w1) i = Some (status s1)"
    using run_finally_error [of _ i _ i] by (fastforce simp: error_of_def status_of_def)
  show ?thesis
  proof (cases outcome)
    case (Resolved resp)
    have "instances (run_after_await i sj outcome w) i =
            Some (sj\<lparr>overrideSafeResult := JUndefined, result := data resp,
                     statusCode := status_r resp, headers := headers_r resp,
                     error := None, status := Done\<rparr>)"
      unfolding Resolved by (rule run_after_await_resolved)
    from f [OF this] show ?thesis
      by (simp add: Resolved error_of_def status_of_def eq)
  next
    case (Rejected e)
    show ?thesis
    proof (cases "isCancel e")
      case True
      then have "instances (run_after_await i sj outcome w) i = Some sj"
        using sj by (simp add: Rejected run_after_await_def)
      from f [OF this] show ?thesis
        using True sj by (simp add: Rejected error_of_def status_of_def eq)
    next
      case False
      then have "instances (run_after_await i sj outcome w) i =
                   Some (sj\<lparr>error := Some e, status := Done\<rparr>)"
        by (simp add: Rejected run_after_await_def emit_def instances_put_inst)
      from f [OF this] show ?thesis
        using False by (simp add: Rejected error_of_def status_of_def eq)
    qed
  qed
qed

subsection \<open>What \<open>runFetch\<close> and the settlement of a call do to the registry\<close>

lemma runFetch_attaches:
  assumes "hasUrl config" and "pendingRequests w (getRequestKey config) = Some c"
  shows "calls (snd (runFetch i s config w)) = calls w \<and>
         pendingRequests (snd (runFetch i s config w)) = pendingRequests w \<and>
         runs (snd (runFetch i s config w)) = runs w @ [\<lparr>r_inst = i, r_call = c, r_outcome = None\<rparr>]"
  using assms by (simp add: runFetch_def Let_def put_inst_def)

lemma runFetch_issues:
  assumes "hasUrl config" and "pendingRequests w (getRequestKey config) = None"
  shows "calls (snd (runFetch i s config w)) =
           calls w @ [\<lparr>creator = i, request = config, aborted = False, settled = None\<rparr>] \<and>
         pendingRequests (snd (runFetch i s config w)) =
           (pendingRequests w)(getRequestKey config \<mapsto> length (calls w)) \<and>
         runs (snd (runFetch i s config w)) =
           runs w @ [\<lparr>r_inst = i, r_call = length (calls w), r_outcome = None\<rparr>]"
  using assms by (simp add: runFetch_def Let_def put_inst_def)

lemma settle_deletes_currentKey:
  assumes "c < length (calls w)" and "settled (calls w ! c) = None"
      and "instances w (creator (calls w ! c)) = Some s" and "currentKey s = Some k"
  shows "pendingRequests (settle c outcome w) = (pendingRequests w)(k := None)"
  using assms by (simp add: settle_def Let_def)


section \<open>The claims\<close>

subsection \<open>C1: the request key and the order of properties\<close>

text \<open>
  C1 as stated fails. The configs \<open>cfg_page_size\<close> and \<open>cfg_size_page\<close> have the same url
  and the same params, the two params written in a different order, and they get
  different keys.
\<close>

theorem getRequestKey_order_counterexample:
  "same_request cfg_page_size cfg_size_page \<and>
   getRequestKey cfg_page_size \<noteq> getRequestKey cfg_size_page"
  by code_simp

text \<open>
  C1, amended: two configs whose \<open>method\<close>, \<open>url\<close>, \<open>params\<close> and \<open>data\<close> are equal
  values, the properties inside \<open>params\<close> and \<open>data\<close> in the same order, get equal keys,
  whatever other properties the configs have and in whatever order the configs list
  their own properties.
\<close>

theorem getRequestKey_same_fields:
  assumes "get_prop a ''method'' = get_prop b ''method''"
      and "get_prop a ''url'' = get_prop b ''url''"
      and "get_prop a ''params'' = get_prop b ''params''"
      and "get_prop a ''data'' = get_prop b ''data''"
  shows "getRequestKey a = getRequestKey b"
  using assms by (simp add: getRequestKey_def)

lemma plain_reordered_props:
  "get_prop cfg_plain ''method'' = get_prop cfg_reordered ''method''"
  "get_prop cfg_plain ''url'' = get_prop cfg_reordered ''url''"
  "get_prop cfg_plain ''params'' = get_prop cfg_reordered ''params''"
  "get_prop cfg_plain ''data'' = get_prop cfg_reordered ''data''"
  by (simp_all add: get_prop_def cfg_plain_def cfg_reordered_def)

text \<open>
  The amended C1 at two configs that differ in their transport options and in the
  order of their properties.
\<close>

theorem getRequestKey_same_fields_witness:
  "cfg_plain \<noteq> cfg_reordered \<and> getRequestKey cfg_plain = getRequestKey cfg_reordered"
  using getRequestKey_same_fields [OF plain_reordered_props]
  by (simp add: cfg_plain_def cfg_reordered_def)

subsection \<open>C2: one transport call per key in flight\<close>

text \<open>
  C2 fails on the code. After \<open>restart_trace\<close> the second call of instance 0, for \<open>/b\<close>, is
  in flight, but its key has left the registry: the call for \<open>/a\<close> settled in between,
  and its \<open>finally\<close> callback deleted the key that \<open>currentKey\<close> held by then. A run of a
  second instance on \<open>/b\<close> therefore issues a third transport call, and the two runs on
  \<open>/b\<close> await different calls. (Lemmas \<open>runFetch_attaches\<close> and \<open>runFetch_issues\<close>: a run
  attaches exactly when its key is registered.)
\<close>

theorem restart_breaks_dedup:
  "in_flight (exec restart_trace init_world) 1 \<and>
   key_of_call (exec restart_trace init_world) 1 = getRequestKey [(''url'', JStr ''/b'')] \<and>
   length (calls (exec restart_trace init_world)) = 2 \<and>
   length (calls (createFetch 1 (Url ''/b'') (exec restart_trace init_world))) = 3 \<and>
   map r_call (runs (createFetch 1 (Url ''/b'') (exec restart_trace init_world))) = [0, 1, 2] \<and>
   map r_inst (runs (createFetch 1 (Url ''/b'') (exec restart_trace init_world))) = [0, 0, 1] \<and>
   in_flight (createFetch 1 (Url ''/b'') (exec restart_trace init_world)) 1 \<and>
   in_flight (createFetch 1 (Url ''/b'') (exec restart_trace init_world)) 2 \<and>
   key_of_call (createFetch 1 (Url ''/b'') (exec restart_trace init_world)) 1 =
   key_of_call (createFetch 1 (Url ''/b'') (exec restart_trace init_world)) 2"
  by code_simp

subsection \<open>C3: a settled call leaves the registry\<close>

text \<open>
  C3 fails on the code. In \<open>restart_trace\<close> the call for \<open>/a\<close> has settled and its key is
  still registered, because the \<open>finally\<close> callback deleted the key of the later run
  (lemma \<open>settle_deletes_currentKey\<close>). A later run on \<open>/a\<close> attaches to the settled call
  and issues no transport call.
\<close>

theorem settled_key_stays_registered:
  "settled (calls (exec restart_trace init_world) ! 0) = Some (Rejected Canceled) \<and>
   pendingRequests (exec restart_trace init_world)
     (key_of_call (exec restart_trace init_world) 0) = Some 0 \<and>
   length (calls (createFetch 1 (Url ''/a'') (exec restart_trace init_world))) =
     length (calls (exec restart_trace init_world)) \<and>
   map r_call (runs (createFetch 1 (Url ''/a'') (exec restart_trace init_world))) = [0, 1, 0] \<and>
   in_flight (exec restart_trace init_world) 1 \<and>
   pendingRequests (exec restart_trace init_world)
     (key_of_call (exec restart_trace init_world) 1) = None"
  by code_simp

subsection \<open>C4: the error while loading\<close>

text \<open>
  C4 as stated fails: after a failed run, a new run sets the status to Loading and
  the error of the failed run is still there.
\<close>

theorem loading_keeps_error_counterexample:
  "status_of (exec retry_trace init_world) 0 = Some Loading \<and>
   error_of (exec retry_trace init_world) 0 = Some (Some (TransportError ''boom''))"
  by code_simp

text \<open>
  C4, amended: the transition into Loading leaves \<open>error\<close> as it was, and \<open>error\<close> keeps
  that value over every sequence of later events in which no activation of \<open>runFetch\<close>
  of the instance goes on after a call that resolved or that rejected with something
  other than a cancellation. An activation of the instance that goes on after a
  resolved call sets \<open>error\<close> to null; one that goes on after a rejection that is not a
  cancellation sets \<open>error\<close> to what the call rejected with.
\<close>

theorem loading_keeps_error:
  assumes "instances w i = Some s" and "hasUrl config"
      and "W0 = snd (runFetch i s config w)"
      and "error_kept i es W0"
      and "W = exec es W0"
  shows "status_of W0 i = Some Loading \<and>
         error_of W0 i = Some (error s) \<and>
         error_of W i = Some (error s) \<and>
         (r < length (runs W) \<and> r_inst (runs W ! r) = i \<and>
          fst (runFetch_resume r W) = Some (Resolved resp) \<longrightarrow>
            error_of (snd (runFetch_resume r W)) i = Some None \<and>
            status_of (snd (runFetch_resume r W)) i = Some Done) \<and>
         (r < length (runs W) \<and> r_inst (runs W ! r) = i \<and>
          fst (runFetch_resume r W) = Some (Rejected e) \<and> \<not> isCancel e \<longrightarrow>
            error_of (snd (runFetch_resume r W)) i = Some (Some e))"
proof -
  have "\<exists>s0. instances W0 i = Some s0 \<and> status s0 = Loading \<and> error s0 = error s"
    using assms(2) unfolding assms(3)
    by (auto simp: runFetch_def Let_def instances_put_inst split: option.splits)
  then obtain s0 where s0: "instances W0 i = Some s0" "status s0 = Loading" "error s0 = error s"
    by blast
  have a: "status_of W0 i = Some Loading" "error_of W0 i = Some (error s)"
    using s0 by (simp_all add: status_of_def error_of_def)
  from exec_error [OF s0(1) assms(4)] have b: "error_of W i = Some (error s)"
    using s0(3) by (auto simp: error_of_def assms(5))
  have c: "error_of (snd (runFetch_resume r W)) i = Some None \<and>
           status_of (snd (runFetch_resume r W)) i = Some Done"
    if "fst (runFetch_resume r W) = Some (Resolved resp)" "r_inst (runs W ! r) = i"
    using runFetch_resume_writes [OF that] by simp
  have d: "error_of (snd (runFetch_resume r W)) i = Some (Some e)"
    if "fst (runFetch_resume r W) = Some (Rejected e)" "r_inst (runs W ! r) = i" "\<not> isCancel e"
    using runFetch_resume_writes [OF that(1,2)] that(3) by simp
  from a b c d show ?thesis by blast
qed

text \<open>
  The amended C4 at the instance of \<open>failed_trace\<close>, which holds the error of its failed
  run. It is started again; while it is Loading its override is set and cleared, its
  polling is stopped, its config is replaced and a second instance is created, and the
  error is still there. Then its call resolves, and the error is null; or its call
  fails again, and the error is the new one.
\<close>

theorem loading_keeps_error_witness:
  "error_of (exec failed_trace init_world) 0 = Some (Some (TransportError ''boom'')) \<and>
   status_of (snd (start 0 (exec failed_trace init_world))) 0 = Some Loading \<and>
   error_of (snd (start 0 (exec failed_trace init_world))) 0 = Some (Some (TransportError ''boom'')) \<and>
   error_of (exec [OverrideSafeResult 0 (JNum 1), Clear 0, StopPoll 0, Fulfill 0 (FUrl ''/b''),
                   Create 1 (Url ''/a''), Settle 1 (Resolved ok_response)]
               (snd (start 0 (exec failed_trace init_world)))) 0
     = Some (Some (TransportError ''boom'')) \<and>
   error_of (snd (runFetch_resume 1
               (exec [OverrideSafeResult 0 (JNum 1), Clear 0, StopPoll 0, Fulfill 0 (FUrl ''/b''),
                      Create 1 (Url ''/a''), Settle 1 (Resolved ok_response)]
                  (snd (start 0 (exec failed_trace init_world)))))) 0 = Some None \<and>
   error_of (snd (runFetch_resume 1
               (exec [Settle 1 (Rejected (TransportError ''again''))]
                  (snd (start 0 (exec failed_trace init_world)))))) 0
     = Some (Some (TransportError ''again''))"
proof -
  define V where "V = exec failed_trace init_world"
  define es1 where "es1 = [OverrideSafeResult 0 (JNum 1), Clear 0, StopPoll 0,
                           Fulfill 0 (FUrl ''/b''), Create 1 (Url ''/a''),
                           Settle 1 (Resolved ok_response)]"
  define es2 where "es2 = [Settle 1 (Rejected (TransportError ''again''))]"
  have p: "instances V 0 \<noteq> None \<and>
           map_option error (instances V 0) = Some (Some (TransportError ''boom'')) \<and>
           map_option status (instances V 0) = Some Done \<and>
           map_option (\<lambda>s. hasUrl (currentConfig s)) (instances V 0) = Some True"
    unfolding V_def by code_simp
  then obtain s where s: "instances V 0 = Some s" by auto
  with p have q: "error s = Some (TransportError ''boom'')" "status s = Done"
    "hasUrl (currentConfig s)" by simp_all
  define W0 where "W0 = snd (runFetch 0 s (currentConfig s) V)"
  have st: "snd (start 0 V) = W0"
    using s q(2) by (simp add: snd_start W0_def)
  have k1: "error_kept 0 es1 (snd (start 0 V))" unfolding V_def es1_def by code_simp
  have k2: "error_kept 0 es2 (snd (start 0 V))" unfolding V_def es2_def by code_simp
  have r1: "1 < length (runs (exec es1 (snd (start 0 V)))) \<and>
            r_inst (runs (exec es1 (snd (start 0 V))) ! 1) = 0 \<and>
            fst (runFetch_resume 1 (exec es1 (snd (start 0 V)))) = Some (Resolved ok_response)"
    unfolding V_def es1_def by code_simp
  have r2: "1 < length (runs (exec es2 (snd (start 0 V)))) \<and>
            r_inst (runs (exec es2 (snd (start 0 V))) ! 1) = 0 \<and>
            fst (runFetch_resume 1 (exec es2 (snd (start 0 V)))) =
              Some (Rejected (TransportError ''again'')) \<and>
            \<not> isCancel (TransportError ''again'')"
    unfolding V_def es2_def by code_simp
  have t1: "status_of W0 0 = Some Loading \<and> error_of W0 0 = Some (error s) \<and>
            error_of (exec es1 W0) 0 = Some (error s) \<and>
            error_of (snd (runFetch_resume 1 (exec es1 W0))) 0 = Some None"
    using loading_keeps_error [OF s q(3) W0_def k1 [unfolded st] refl, of 1 ok_response]
          r1 [unfolded st] by blast
  have t2: "error_of (snd (runFetch_resume 1 (exec es2 W0))) 0 = Some (Some (TransportError ''again''))"
    using loading_keeps_error [OF s q(3) W0_def k2 [unfolded st] refl,
            of 1 _ "TransportError ''again''"]
          r2 [unfolded st] by blast
  have e0: "error_of V 0 = Some (Some (TransportError ''boom''))"
    using s q(1) by (simp add: error_of_def)
  show ?thesis
    using t1 t2 e0 q(1)
    unfolding V_def [symmetric] es1_def [symmetric] es2_def [symmetric] st by simp
qed

subsection \<open>C5: a run whose call fails\<close>




subsection \<open>C6: \<open>stop\<close> while loading\<close>




subsection \<open>C7: how long an override lasts\<close>

text \<open>
  C7 as stated fails at the value \<open>undefined\<close>: after \<open>overrideSafeResult(undefined)\<close>
  the safe result is the derived one, here \<open>null\<close>.
\<close>

theorem override_undefined_counterexample:
  "safeResult_of (overrideSafeResult_m 0 JUndefined (createFetch 0 (lazy_url ''/a'') init_world)) 0
     = Some JNull \<and>
   safeResult_of (overrideSafeResult_m 0 JUndefined (createFetch 0 (lazy_url ''/a'') init_world)) 0
     \<noteq> Some JUndefined"
  by code_simp

text \<open>
  C7, amended: for a value \<open>v\<close> other than \<open>undefined\<close>, after \<open>overrideSafeResult(v)\<close>
  the safe result of the instance is \<open>v\<close>, and it stays \<open>v\<close> over every sequence of
  events without another \<open>overrideSafeResult\<close>, a \<open>clearSafeOverride\<close>, a \<open>clear\<close> or a
  successful completion of a run of the instance; right after \<open>clearSafeOverride\<close>,
  \<open>clear\<close> or such a completion the safe result is \<open>safeResultGetter(result)\<close>.
\<close>

theorem override_until_reset:
  assumes "instances w i = Some s" and "v \<noteq> JUndefined"
      and "override_kept i es (overrideSafeResult_m i v w)"
      and "W = exec es (overrideSafeResult_m i v w)"
  shows "safeResult_of W i = Some v \<and>
         derived (clearSafeOverride i W) i \<and>
         derived (clear i W) i \<and>
         (r < length (runs W) \<and> r_inst (runs W ! r) = i \<and>
          fst (runFetch_resume r W) = Some (Resolved resp) \<longrightarrow>
            derived (snd (runFetch_resume r W)) i)"
proof -
  have "instances (overrideSafeResult_m i v w) i = Some (s\<lparr>overrideSafeResult := v\<rparr>)"
    using assms(1) by (simp add: overrideSafeResult_m_def instances_put_inst)
  from exec_override [OF this assms(3)] obtain s' where
    s': "instances W i = Some s'" "overrideSafeResult s' = v"
    by (auto simp: assms(4))
  have a: "safeResult_of W i = Some v"
    using s' assms(2) by (simp add: safeResult_of_def safeResult_def)
  have b: "derived (clearSafeOverride i W) i"
    using s' by (simp add: derived_def clearSafeOverride_def instances_put_inst safeResult_def)
  have c: "derived (clear i W) i"
    using s' by (simp add: derived_def clear_def instances_put_inst safeResult_def)
  have d: "derived (snd (runFetch_resume r W)) i"
    if "fst (runFetch_resume r W) = Some (Resolved resp)" "r_inst (runs W ! r) = i"
    using runFetch_resume_resolved [OF that] by (auto simp: derived_def safeResult_def)
  from a b c d show ?thesis by blast
qed

text \<open>
  The amended C7 at a lazy instance that is overridden, started and whose call
  resolves.
\<close>

theorem override_until_reset_witness:
  "safeResult_of (exec [Start 0, Settle 0 (Resolved ok_response)]
       (overrideSafeResult_m 0 (JStr ''manual'') (createFetch 0 (lazy_url ''/a'') init_world))) 0
     = Some (JStr ''manual'') \<and>
   derived (snd (runFetch_resume 0 (exec [Start 0, Settle 0 (Resolved ok_response)]
       (overrideSafeResult_m 0 (JStr ''manual'') (createFetch 0 (lazy_url ''/a'') init_world))))) 0"
proof -
  define w where "w = createFetch 0 (lazy_url ''/a'') init_world"
  define W where "W = exec [Start 0, Settle 0 (Resolved ok_response)]
       (overrideSafeResult_m 0 (JStr ''manual'') w)"
  have "instances w 0 \<noteq> None" unfolding w_def by code_simp
  then obtain s where s: "instances w 0 = Some s" by blast
  have k: "override_kept 0 [Start 0, Settle 0 (Resolved ok_response)]
             (overrideSafeResult_m 0 (JStr ''manual'') w)"
    unfolding w_def by code_simp
  have r: "0 < length (runs W) \<and> r_inst (runs W ! 0) = 0 \<and>
           fst (runFetch_resume 0 W) = Some (Resolved ok_response)"
    unfolding W_def w_def by code_simp
  from override_until_reset [OF s _ k W_def, of 0 ok_response] r
  show ?thesis unfolding W_def w_def by simp
qed

subsection \<open>C8: a config without url\<close>

text \<open>
  C8: for a config whose url is missing or the empty string, \<open>runFetch\<close> rejects with
  the config error and leaves the whole state as it was; so does \<open>start\<close> on an
  instance whose current config is such a config.
\<close>

theorem runFetch_no_url:
  assumes "\<not> has_prop config ''url'' \<or> get_prop config ''url'' = JStr []"
  shows "runFetch i s config w = (Inl ConfigError, w) \<and>
         (instances w i = Some s \<and> currentConfig s = config \<and> status s \<noteq> Loading \<longrightarrow>
            start i w = (Some (Inl ConfigError), w))"
proof -
  have "\<not> hasUrl config" using assms by (auto simp: hasUrl_def trim_def)
  then have "runFetch i s config w = (Inl ConfigError, w)" by (simp add: runFetch_def)
  then show ?thesis by (simp add: start_def)
qed

text \<open>
  C8 at the empty config and at an instance created with the empty url.
\<close>

theorem runFetch_no_url_witness:
  "runFetch 0 (new_instance (default_options [])) [] init_world = (Inl ConfigError, init_world) \<and>
   start 0 (createFetch 0 (Url []) init_world) = (Some (Inl ConfigError), createFetch 0 (Url []) init_world)"
proof -
  define s where "s = (new_instance (default_options [(''url'', JStr [])]))\<lparr>status := Inactive\<rparr>"
  have h1: "\<not> has_prop [] ''url'' \<or> get_prop [] ''url'' = JStr []"
    by (simp add: has_prop_def)
  have h2: "\<not> has_prop [(''url'', JStr [])] ''url'' \<or> get_prop [(''url'', JStr [])] ''url'' = JStr []"
    by (simp add: get_prop_def)
  have c: "createFetch 0 (Url []) init_world = put_inst 0 s (put_inst 0 (new_instance (default_options [(''url'', JStr [])])) init_world)"
    by (simp add: createFetch_def init_world_def Let_def hasUrl_def get_prop_def trim_def s_def
        new_instance_def default_options_def)
  have i: "instances (createFetch 0 (Url []) init_world) 0 = Some s \<and>
           currentConfig s = [(''url'', JStr [])] \<and> status s \<noteq> Loading"
    by (simp add: c instances_put_inst) (simp add: s_def new_instance_def default_options_def)
  show ?thesis
    using runFetch_no_url [OF h1, of 0 "new_instance (default_options [])" init_world]
          runFetch_no_url [OF h2, of 0 s "createFetch 0 (Url []) init_world"] i
    by simp
qed

subsection \<open>C9: one pending timer\<close>

text \<open>
  C9 fails on the code. After \<open>poll_trace\<close> instance 0 has two pending timeouts: the
  second run scheduled one without cancelling the one of the first run. \<open>stopPoll\<close>
  cancels only the one \<open>pollTimer\<close> names; the other fires later and starts a run.
\<close>

theorem poll_timers_coexist:
  "timers_of (exec poll_trace init_world) 0 = [0, 1] \<and>
   map_option pollTimer (instances (exec poll_trace init_world) 0) = Some (Some 1) \<and>
   timers_of (stopPoll 0 (exec poll_trace init_world)) 0 = [0] \<and>
   length (runs (stopPoll 0 (exec poll_trace init_world))) = 2 \<and>
   length (runs (fire 0 (stopPoll 0 (exec poll_trace init_world)))) = 3"
  by code_simp

subsection \<open>C10: overriding with \<open>undefined\<close>\<close>

text \<open>
  C10: \<open>overrideSafeResult(undefined)\<close> leaves the same state as \<open>clearSafeOverride()\<close>;
  the safe result is then \<open>safeResultGetter(result)\<close>; and a safe result that is
  \<open>undefined\<close> is always the derived one, never an override.
\<close>

theorem override_undefined_is_clear:
  "overrideSafeResult_m i JUndefined w = clearSafeOverride i w \<and>
   (instances w i = Some s \<longrightarrow>
      safeResult_of (overrideSafeResult_m i JUndefined w) i = Some (safeResultGetter s (result s))) \<and>
   (safeResult s' = JUndefined \<longrightarrow> safeResult s' = safeResultGetter s' (result s'))"
  by (auto simp: overrideSafeResult_m_def clearSafeOverride_def safeResult_of_def put_inst_def safeResult_def)

text \<open>
  C10 at an overridden instance, and at an instance whose getter yields \<open>undefined\<close>.
\<close>

theorem override_undefined_is_clear_witness:
  "safeResult_of (overrideSafeResult_m 0 JUndefined
       (overrideSafeResult_m 0 (JStr ''manual'') (createFetch 0 (lazy_url ''/a'') init_world))) 0 = Some JNull \<and>
   overrideSafeResult_m 0 JUndefined
       (overrideSafeResult_m 0 (JStr ''manual'') (createFetch 0 (lazy_url ''/a'') init_world)) =
   clearSafeOverride 0
       (overrideSafeResult_m 0 (JStr ''manual'') (createFetch 0 (lazy_url ''/a'') init_world)) \<and>
   safeResult (new_instance ((default_options [])\<lparr>o_safeResultGetter := Some (\<lambda>r. JUndefined)\<rparr>))
     = JUndefined"
proof -
  define W where "W = overrideSafeResult_m 0 (JStr ''manual'') (createFetch 0 (lazy_url ''/a'') init_world)"
  define s where "s = (new_instance ((default_options [(''url'', JStr ''/a'')])\<lparr>o_lazy := True\<rparr>))
                         \<lparr>status := Inactive, overrideSafeResult := JStr ''manual''\<rparr>"
  define t where "t = new_instance ((default_options [])\<lparr>o_safeResultGetter := Some (\<lambda>r. JUndefined)\<rparr>)"
  have i: "instances W 0 = Some s"
    unfolding W_def s_def
    by (simp add: createFetch_def lazy_url_def init_world_def Let_def overrideSafeResult_m_def
        instances_put_inst new_instance_def)
  have g: "safeResultGetter s (result s) = JNull"
    by (simp add: s_def new_instance_def default_options_def)
  have u: "safeResult t = JUndefined"
    by (simp add: t_def safeResult_def new_instance_def default_options_def)
  have th: "overrideSafeResult_m 0 JUndefined W = clearSafeOverride 0 W \<and>
     (instances W 0 = Some s \<longrightarrow>
        safeResult_of (overrideSafeResult_m 0 JUndefined W) 0 = Some (safeResultGetter s (result s))) \<and>
     (safeResult t = JUndefined \<longrightarrow> safeResult t = safeResultGetter t (result t))"
    by (rule override_undefined_is_clear)
  from th i have "safeResult_of (overrideSafeResult_m 0 JUndefined W) 0 = Some JNull"
    unfolding g by blast
  moreover from th have "overrideSafeResult_m 0 JUndefined W = clearSafeOverride 0 W" by blast
  ultimately show ?thesis using u unfolding W_def t_def by blast
qed

end
